theory Spec2Isabelle
  imports Main
begin

section \<open>Values and records of the chat relay (server.js)\<close>

text \<open>
  A connection id (\<open>socket.id\<close>) is a string drawn by the transport. Usernames and room
  names arrive in client payloads; a field may be missing, so each is a string or
  \<open>undefined\<close> (\<open>None\<close>). Payloads that are neither a string nor missing are outside this
  model. Every \<open>new Date()\<close> of one handler run reads the clock value passed to it.
\<close>

type_synonym sid = string
type_synonym jstr = "string option"
type_synonym time = nat

definition truthy :: "jstr \<Rightarrow> bool" where
  "truthy v = (case v of None \<Rightarrow> False | Some s \<Rightarrow> s \<noteq> [])"

text \<open>Template-literal interpolation \<open>${v}\<close>.\<close>

definition interp :: "jstr \<Rightarrow> string" where
  "interp v = (case v of None \<Rightarrow> ''undefined'' | Some s \<Rightarrow> s)"

text \<open>The value stored in \<open>users[socket.id]\<close>: \<open>{ username, room }\<close>.\<close>

record user =
  username :: jstr
  room :: jstr

text \<open>
  \<open>{ from_user, message, date_sent }\<close> is the bot notice; the group \<open>messageData\<close> adds
  \<open>room\<close> (here \<open>in_room\<close>, since \<open>room\<close> is the field of \<open>user\<close>), the private one adds
  \<open>to_user\<close>.
\<close>

record msg =
  from_user :: jstr
  message :: string
  date_sent :: time

record group_msg = msg +
  in_room :: jstr

record private_msg = msg +
  to_user :: jstr

text \<open>
  Outbound socket events, named after the event string of the source. The event
  \<open>'message'\<close> carries either a bot notice (\<open>Ev_message\<close>) or the group \<open>messageData\<close>
  (\<open>Ev_groupMessage\<close>).
\<close>

datatype event =
    Ev_message msg
  | Ev_groupMessage group_msg
  | Ev_roomUsers "user list"
  | Ev_previousMessages "group_msg list"
  | Ev_privateMessage private_msg
  | Ev_typing jstr
  | Ev_stopTyping

text \<open>
  Where an emit is addressed: \<open>io.to(room)\<close>, \<open>io.to(socketId)\<close>,
  \<open>socket.broadcast.to(room)\<close> (the room without the sending socket) and \<open>socket.emit\<close>.
\<close>

datatype target =
    To_room jstr
  | To_sid sid
  | Broadcast_to sid jstr
  | To_socket sid

text \<open>
  What a handler does, in the order it does it: an emit (with the connections it reaches),
  an archive append that has settled (with its outcome), a console line.
\<close>

datatype action =
    Emit target event "sid list"
  | Save_group group_msg bool
  | Save_private private_msg bool
  | Console string

text \<open>
  The state: the global \<open>users\<close> object (a JavaScript object keeps its string keys in
  insertion order, which \<open>Object.values\<close> and \<open>Object.entries\<close> follow), the transport's
  table of connected sockets with the named rooms each has joined, and the two archive
  collections.
\<close>

record state =
  users :: "(sid \<times> user) list"
  sockets :: "(sid \<times> jstr list) list"
  groupMessages :: "group_msg list"
  privateMessages :: "private_msg list"

definition init_state :: state where
  "init_state = \<lparr>users = [], sockets = [], groupMessages = [], privateMessages = []\<rparr>"

section \<open>The \<open>users\<close> object\<close>

text \<open>\<open>users[k] = v\<close>: an existing key keeps its place, a new key goes last.\<close>

fun js_assign :: "sid \<Rightarrow> user \<Rightarrow> (sid \<times> user) list \<Rightarrow> (sid \<times> user) list" where
  "js_assign k v [] = [(k, v)]"
| "js_assign k v (p # ps) = (if fst p = k then (k, v) # ps else p # js_assign k v ps)"

text \<open>\<open>delete users[k]\<close>.\<close>

definition js_delete :: "sid \<Rightarrow> (sid \<times> user) list \<Rightarrow> (sid \<times> user) list" where
  "js_delete k ps = filter (\<lambda>p. fst p \<noteq> k) ps"

text \<open>\<open>Object.values(users).filter(u => u.room === room)\<close>.\<close>

definition getRoomUsers :: "state \<Rightarrow> jstr \<Rightarrow> user list" where
  "getRoomUsers s r = filter (\<lambda>u. room u = r) (map snd (users s))"

text \<open>\<open>Object.entries(users).find(([, u]) => u.username === to_user)\<close>.\<close>

definition recipientSocket :: "state \<Rightarrow> jstr \<Rightarrow> (sid \<times> user) option" where
  "recipientSocket s t = find (\<lambda>p. username (snd p) = t) (users s)"

section \<open>The transport\<close>

text \<open>
  The transport (socket.io) is a library, not part of the repository. Modelled from its
  documentation: on connection a socket joins the room named by its own id;
  \<open>socket.join\<close> and \<open>socket.leave\<close> add and remove the room of the given name, whatever the
  name, so also the room of an id; \<open>io.to(name)\<close> addresses the sockets that are in the room
  of that name, each once, and \<open>io.to(socketId)\<close> is such an address; \<open>socket.emit\<close> goes to
  the socket itself; a socket has left every room by the time its \<open>disconnect\<close> handler
  runs. The table \<open>sockets\<close> lists the connected sockets, each with the rooms it is in.
\<close>

definition socket_join :: "sid \<Rightarrow> jstr \<Rightarrow> (sid \<times> jstr list) list \<Rightarrow> (sid \<times> jstr list) list" where
  "socket_join x r socks = map (\<lambda>p. if fst p = x then (fst p, List.insert r (snd p)) else p) socks"

definition socket_leave :: "sid \<Rightarrow> jstr \<Rightarrow> (sid \<times> jstr list) list \<Rightarrow> (sid \<times> jstr list) list" where
  "socket_leave x r socks = map (\<lambda>p. if fst p = x then (fst p, removeAll r (snd p)) else p) socks"

definition members :: "(sid \<times> jstr list) list \<Rightarrow> jstr \<Rightarrow> sid list" where
  "members socks r = map fst (filter (\<lambda>p. r \<in> set (snd p)) socks)"

fun recipients :: "(sid \<times> jstr list) list \<Rightarrow> target \<Rightarrow> sid list" where
  "recipients socks (To_room r) = members socks r"
| "recipients socks (To_sid x) = members socks (Some x)"
| "recipients socks (Broadcast_to x r) = filter (\<lambda>y. y \<noteq> x) (members socks r)"
| "recipients socks (To_socket x) = filter (\<lambda>y. y = x) (map fst socks)"

definition emit :: "state \<Rightarrow> target \<Rightarrow> event \<Rightarrow> action" where
  "emit s t e = Emit t e (recipients (sockets s) t)"

text \<open>The events a connection receives from a run of actions, in order.\<close>

fun received :: "action list \<Rightarrow> sid \<Rightarrow> event list" where
  "received [] x = []"
| "received (Emit t e rs # acts) x = replicate (count_list rs x) e @ received acts x"
| "received (a # acts) x = received acts x"

text \<open>The emits of a run of actions, and whether an action is an archive append.\<close>

fun emits :: "action list \<Rightarrow> action list" where
  "emits [] = []"
| "emits (Emit t e rs # acts) = Emit t e rs # emits acts"
| "emits (a # acts) = emits acts"

fun is_save :: "action \<Rightarrow> bool" where
  "is_save (Save_group m ok) = True"
| "is_save (Save_private m ok) = True"
| "is_save a = False"

section \<open>The message archive\<close>

text \<open>
  Modelled from the spec: the models \<open>GroupMessage\<close> and \<open>PrivateMessage\<close> are not among
  the sources. \<open>append(message) \<rightarrow> ack | failure\<close>: the outcome is an input of the handler,
  and an acknowledged message is added to the collection. \<open>recentFor(room, limit)\<close>: the
  room's messages, oldest first, capped.
\<close>

definition recentFor :: "group_msg list \<Rightarrow> jstr \<Rightarrow> nat \<Rightarrow> group_msg list" where
  "recentFor ms r lim = take lim (sort_key date_sent (filter (\<lambda>m. in_room m = r) ms))"

section \<open>The handlers\<close>

definition notice :: "string \<Rightarrow> time \<Rightarrow> msg" where
  "notice txt now = \<lparr>from_user = Some ''Chat App Bot'', message = txt, date_sent = now\<rparr>"

text \<open>
  \<open>io.on('connection')\<close>: the transport has added the socket, in the room of its id; the
  handler logs.
\<close>

definition connection :: "state \<Rightarrow> sid \<Rightarrow> state \<times> action list" where
  "connection s x =
     (s\<lparr>sockets := sockets s @ [(x, [Some x])]\<rparr>, [Console (''User connected: '' @ x)])"

text \<open>
  \<open>joinRoom\<close>, lines 140-182. \<open>leavePrevious\<close> is its first block (``leave previous room
  if any'', lines 142-151). \<open>found\<close> is whether the history query succeeds. The history is
  sent after an \<open>await\<close>; here no other event is handled in between.
\<close>

definition leavePrevious :: "state \<Rightarrow> sid \<Rightarrow> time \<Rightarrow> state \<times> action list" where
  "leavePrevious s x now =
     (case map_of (users s) x of
        None \<Rightarrow> (s, [])
      | Some u \<Rightarrow>
          if truthy (room u) then
            (let prevRoom = room u;
                 s1 = s\<lparr>sockets := socket_leave x prevRoom (sockets s)\<rparr>
             in (s1,
                 [emit s1 (To_room prevRoom)
                    (Ev_message (notice (interp (username u) @ '' has left the chat'') now)),
                  emit s1 (To_room prevRoom) (Ev_roomUsers (getRoomUsers s1 prevRoom))]))
          else (s, []))"

definition joinRoom :: "state \<Rightarrow> sid \<Rightarrow> jstr \<Rightarrow> jstr \<Rightarrow> time \<Rightarrow> bool \<Rightarrow> state \<times> action list" where
  "joinRoom s x uname rm now found =
     (let (s1, a1) = leavePrevious s x now;
          s2 = s1\<lparr>users := js_assign x \<lparr>username = uname, room = rm\<rparr> (users s1),
                  sockets := socket_join x rm (sockets s1)\<rparr>;
          a2 = [emit s2 (To_socket x) (Ev_message (notice ''Welcome to chat app :)'' now)),
                emit s2 (Broadcast_to x rm)
                  (Ev_message (notice (interp uname @ '' has joined the chat'') now)),
                emit s2 (To_room rm) (Ev_roomUsers (getRoomUsers s2 rm))];
          a3 = (if found
                then [emit s2 (To_socket x) (Ev_previousMessages (recentFor (groupMessages s2) rm 50))]
                else [Console ''Error loading previous messages:''])
      in (s2, a1 @ a2 @ a3))"

text \<open>
  \<open>chatMessage\<close>, lines 185-206. The handler reads the session and builds \<open>messageData\<close>,
  awaits the save, and then broadcasts: \<open>chatMessage_begin\<close> is the part before the
  \<open>await\<close>, \<open>chatMessage_resume\<close> the part that runs once the save has settled (\<open>ok\<close> is its
  outcome), on the state of that moment. \<open>chatMessage\<close> is the handler with no other event
  handled during the \<open>await\<close>.
\<close>

definition chatMessage_begin :: "state \<Rightarrow> sid \<Rightarrow> string \<Rightarrow> time \<Rightarrow> group_msg option" where
  "chatMessage_begin s x txt now =
     (case map_of (users s) x of
        None \<Rightarrow> None
      | Some u \<Rightarrow>
          Some \<lparr>from_user = username u, message = txt, date_sent = now, in_room = room u\<rparr>)"

definition chatMessage_resume :: "state \<Rightarrow> group_msg \<Rightarrow> bool \<Rightarrow> state \<times> action list" where
  "chatMessage_resume s m ok =
     (let s1 = (if ok then s\<lparr>groupMessages := groupMessages s @ [m]\<rparr> else s);
          a1 = Save_group m ok # (if ok then [] else [Console ''Error saving message:''])
      in (s1, a1 @ [emit s1 (To_room (in_room m)) (Ev_groupMessage m)]))"

definition chatMessage :: "state \<Rightarrow> sid \<Rightarrow> string \<Rightarrow> time \<Rightarrow> bool \<Rightarrow> state \<times> action list" where
  "chatMessage s x txt now ok =
     (case chatMessage_begin s x txt now of
        None \<Rightarrow> (s, [])
      | Some m \<Rightarrow> chatMessage_resume s m ok)"

text \<open>\<open>privateMessage\<close>, lines 209-240, split at its \<open>await\<close> in the same way.\<close>

definition privateMessage_begin :: "state \<Rightarrow> sid \<Rightarrow> jstr \<Rightarrow> string \<Rightarrow> time \<Rightarrow> private_msg option" where
  "privateMessage_begin s x t txt now =
     (case map_of (users s) x of
        None \<Rightarrow> None
      | Some u \<Rightarrow>
          Some \<lparr>from_user = username u, message = txt, date_sent = now, to_user = t\<rparr>)"

definition privateMessage_resume :: "state \<Rightarrow> sid \<Rightarrow> private_msg \<Rightarrow> bool \<Rightarrow> state \<times> action list" where
  "privateMessage_resume s x m ok =
     (let s1 = (if ok then s\<lparr>privateMessages := privateMessages s @ [m]\<rparr> else s);
          a1 = Save_private m ok # (if ok then [] else [Console ''Error saving private message:'']);
          a2 = (case recipientSocket s1 (to_user m) of
                  None \<Rightarrow> []
                | Some p \<Rightarrow> [emit s1 (To_sid (fst p)) (Ev_privateMessage m)])
      in (s1, a1 @ a2 @ [emit s1 (To_socket x) (Ev_privateMessage m)]))"

definition privateMessage :: "state \<Rightarrow> sid \<Rightarrow> jstr \<Rightarrow> string \<Rightarrow> time \<Rightarrow> bool \<Rightarrow> state \<times> action list" where
  "privateMessage s x t txt now ok =
     (case privateMessage_begin s x t txt now of
        None \<Rightarrow> (s, [])
      | Some m \<Rightarrow> privateMessage_resume s x m ok)"

text \<open>\<open>typing\<close>, lines 243-255, and \<open>stopTyping\<close>, lines 258-269.\<close>

definition typing :: "state \<Rightarrow> sid \<Rightarrow> jstr \<Rightarrow> jstr \<Rightarrow> jstr \<Rightarrow> state \<times> action list" where
  "typing s x uname rm t =
     (if truthy t then
        (case recipientSocket s t of
           None \<Rightarrow> (s, [])
         | Some p \<Rightarrow> (s, [emit s (To_sid (fst p)) (Ev_typing uname)]))
      else if truthy rm then (s, [emit s (Broadcast_to x rm) (Ev_typing uname)])
      else (s, []))"

definition stopTyping :: "state \<Rightarrow> sid \<Rightarrow> jstr \<Rightarrow> jstr \<Rightarrow> state \<times> action list" where
  "stopTyping s x rm t =
     (if truthy t then
        (case recipientSocket s t of
           None \<Rightarrow> (s, [])
         | Some p \<Rightarrow> (s, [emit s (To_sid (fst p)) Ev_stopTyping]))
      else if truthy rm then (s, [emit s (Broadcast_to x rm) Ev_stopTyping])
      else (s, []))"

text \<open>\<open>leaveRoom\<close>, lines 272-286.\<close>

definition leaveRoom :: "state \<Rightarrow> sid \<Rightarrow> time \<Rightarrow> state \<times> action list" where
  "leaveRoom s x now =
     (case map_of (users s) x of
        None \<Rightarrow> (s, [])
      | Some u \<Rightarrow>
          (let s1 = s\<lparr>sockets := socket_leave x (room u) (sockets s)\<rparr>;
               a = [emit s1 (To_room (room u))
                      (Ev_message (notice (interp (username u) @ '' has left the chat'') now)),
                    emit s1 (To_room (room u)) (Ev_roomUsers (getRoomUsers s1 (room u)))]
           in (s1\<lparr>users := js_delete x (users s1)\<rparr>, a)))"

text \<open>
  \<open>disconnect\<close>, lines 289-301. The transport has removed the socket from every room
  before the handler runs.
\<close>

definition disconnect :: "state \<Rightarrow> sid \<Rightarrow> time \<Rightarrow> state \<times> action list" where
  "disconnect s x now =
     (let s0 = s\<lparr>sockets := filter (\<lambda>p. fst p \<noteq> x) (sockets s)\<rparr>;
          lg = [Console (''User disconnected: '' @ x)]
      in case map_of (users s0) x of
           None \<Rightarrow> (s0, lg)
         | Some u \<Rightarrow>
             (s0\<lparr>users := js_delete x (users s0)\<rparr>,
              [emit s0 (To_room (room u))
                 (Ev_message (notice (interp (username u) @ '' has left the chat'') now)),
               emit s0 (To_room (room u)) (Ev_roomUsers (getRoomUsers s0 (room u)))] @ lg))"

section \<open>Runs of the server\<close>

text \<open>
  The inbound events. The transport gives a new connection an id no connected socket has,
  and delivers an event only for a connected socket. A run handles each event to its end;
  the parts of \<open>chatMessage\<close> and \<open>privateMessage\<close> after their \<open>await\<close> change nothing but
  the archive, so the registry and the transport table of a run do not depend on when a
  save settles.
\<close>

datatype input =
    Connect sid
  | JoinRoom sid jstr jstr time bool
  | ChatMessage sid string time bool
  | PrivateMessage sid jstr string time bool
  | Typing sid jstr jstr jstr
  | StopTyping sid jstr jstr
  | LeaveRoom sid time
  | Disconnect sid time

definition connected :: "state \<Rightarrow> sid \<Rightarrow> bool" where
  "connected s x = (x \<in> set (map fst (sockets s)))"

fun origin :: "input \<Rightarrow> sid" where
  "origin (Connect x) = x"
| "origin (JoinRoom x uname rm now found) = x"
| "origin (ChatMessage x txt now ok) = x"
| "origin (PrivateMessage x t txt now ok) = x"
| "origin (Typing x uname rm t) = x"
| "origin (StopTyping x rm t) = x"
| "origin (LeaveRoom x now) = x"
| "origin (Disconnect x now) = x"

fun handle :: "state \<Rightarrow> input \<Rightarrow> state \<times> action list" where
  "handle s (Connect x) = connection s x"
| "handle s (JoinRoom x uname rm now found) = joinRoom s x uname rm now found"
| "handle s (ChatMessage x txt now ok) = chatMessage s x txt now ok"
| "handle s (PrivateMessage x t txt now ok) = privateMessage s x t txt now ok"
| "handle s (Typing x uname rm t) = typing s x uname rm t"
| "handle s (StopTyping x rm t) = stopTyping s x rm t"
| "handle s (LeaveRoom x now) = leaveRoom s x now"
| "handle s (Disconnect x now) = disconnect s x now"

fun is_connect :: "input \<Rightarrow> bool" where
  "is_connect (Connect x) = True"
| "is_connect i = False"

definition step :: "state \<Rightarrow> input \<Rightarrow> state \<times> action list" where
  "step s i =
     (if is_connect i
      then (if connected s (origin i) then (s, []) else handle s i)
      else (if connected s (origin i) then handle s i else (s, [])))"

fun run :: "state \<Rightarrow> input list \<Rightarrow> state" where
  "run s [] = s"
| "run s (i # is) = run (fst (step s i)) is"

text \<open>The invariant of the runs: the registry's keys are connected sockets, each in its room.\<close>

definition consistent :: "state \<Rightarrow> bool" where
  "consistent s \<longleftrightarrow>
     distinct (map fst (users s)) \<and> distinct (map fst (sockets s)) \<and>
     list_all (\<lambda>p. list_ex (\<lambda>q. fst q = fst p \<and> room (snd p) \<in> set (snd q)) (sockets s)) (users s)"

section \<open>Notions used in the statements\<close>

text \<open>The actions before the first archive append settles, and those from it on.\<close>

definition before_save :: "action list \<Rightarrow> action list" where
  "before_save acts = takeWhile (\<lambda>a. \<not> is_save a) acts"

definition after_save :: "action list \<Rightarrow> action list" where
  "after_save acts = dropWhile (\<lambda>a. \<not> is_save a) acts"

text \<open>Some session of the registry has identity \<open>t\<close>.\<close>

definition online :: "state \<Rightarrow> jstr \<Rightarrow> bool" where
  "online s t = list_ex (\<lambda>p. username (snd p) = t) (users s)"

text \<open>Connection \<open>y\<close> is in the transport room \<open>r\<close>.\<close>

definition joined :: "state \<Rightarrow> sid \<Rightarrow> jstr \<Rightarrow> bool" where
  "joined s y r = list_ex (\<lambda>q. fst q = y \<and> r \<in> set (snd q)) (sockets s)"

text \<open>
  Runs used as concrete inputs. In \<open>two_joined\<close> connections \<open>c1\<close> and \<open>c2\<close> join room
  sports as alice and bob (the scenario of the specification). In \<open>one_joined\<close> only \<open>c1\<close>
  has joined; \<open>c2\<close> has connected. In \<open>id_room_left\<close> bob first joins a room named after
  his own connection id, \<open>c2\<close>, and then room sports. In \<open>empty_room_joined\<close> alice has
  joined the room with the empty name.
\<close>

definition alice :: user where
  "alice = \<lparr>username = Some ''alice'', room = Some ''sports''\<rparr>"

definition bob :: user where
  "bob = \<lparr>username = Some ''bob'', room = Some ''sports''\<rparr>"

definition two_joined :: "input list" where
  "two_joined =
     [Connect ''c1'', Connect ''c2'',
      JoinRoom ''c1'' (Some ''alice'') (Some ''sports'') 1 True,
      JoinRoom ''c2'' (Some ''bob'') (Some ''sports'') 2 True]"

definition one_joined :: "input list" where
  "one_joined =
     [Connect ''c1'', Connect ''c2'',
      JoinRoom ''c1'' (Some ''alice'') (Some ''sports'') 1 True]"

definition id_room_left :: "input list" where
  "id_room_left =
     [Connect ''c1'', Connect ''c2'',
      JoinRoom ''c1'' (Some ''alice'') (Some ''sports'') 1 True,
      JoinRoom ''c2'' (Some ''bob'') (Some ''c2'') 2 True,
      JoinRoom ''c2'' (Some ''bob'') (Some ''sports'') 3 True]"


section \<open>The registry and the transport\<close>

lemma fst_js_assign:
  "map fst (js_assign k v ps) = (if k \<in> set (map fst ps) then map fst ps else map fst ps @ [k])"
  by (induction ps) auto

lemma set_js_assign:
  "distinct (map fst ps) \<Longrightarrow> set (js_assign k v ps) = insert (k, v) {p \<in> set ps. fst p \<noteq> k}"
  by (induction ps) (auto simp: rev_image_eqI)

lemma map_of_js_delete:
  "map_of (js_delete k ps) y = (if y = k then None else map_of ps y)"
  by (induction ps) (auto simp: js_delete_def)

lemma fst_socket_join: "map fst (socket_join x r socks) = map fst socks"
  by (induction socks) (auto simp: socket_join_def)

lemma fst_socket_leave: "map fst (socket_leave x r socks) = map fst socks"
  by (induction socks) (auto simp: socket_leave_def)

lemma socket_leave_other:
  "(y, rs) \<in> set socks \<Longrightarrow> y \<noteq> x \<Longrightarrow> (y, rs) \<in> set (socket_leave x r socks)"
  by (force simp: socket_leave_def)

lemma socket_join_other:
  "(y, rs) \<in> set socks \<Longrightarrow> y \<noteq> x \<Longrightarrow> (y, rs) \<in> set (socket_join x r socks)"
  by (force simp: socket_join_def)

lemma socket_join_self:
  "x \<in> set (map fst socks) \<Longrightarrow> \<exists>rs. (x, rs) \<in> set (socket_join x r socks) \<and> r \<in> set rs"
  by (force simp: socket_join_def)

lemma recipientSocket_Some:
  "recipientSocket s t = Some p \<Longrightarrow> p \<in> set (users s) \<and> username (snd p) = t"
  unfolding recipientSocket_def find_Some_iff by auto

lemma recipientSocket_None:
  "recipientSocket s t = None \<longleftrightarrow> \<not> online s t"
  unfolding recipientSocket_def online_def find_None_iff list_ex_iff by blast

lemma recipientSocket_archive:
  "recipientSocket (s\<lparr>privateMessages := v\<rparr>) t = recipientSocket s t"
  by (simp add: recipientSocket_def)

lemma count_list_distinct: "distinct xs \<Longrightarrow> count_list xs y = (if y \<in> set xs then 1 else 0)"
  by (induction xs) auto

lemma count_replicate: "count_list (replicate n e) e' = (if e' = e then n else 0)"
  by (induction n) auto

lemma distinct_members: "distinct (map fst socks) \<Longrightarrow> distinct (members socks r)"
  by (simp add: members_def distinct_map_filter)

lemma in_members: "y \<in> set (members socks r) \<longleftrightarrow> (\<exists>rs. (y, rs) \<in> set socks \<and> r \<in> set rs)"
  by (induction socks) (auto simp: members_def)

lemma count_members:
  "distinct (map fst socks) \<Longrightarrow>
   count_list (members socks r) y = (if \<exists>rs. (y, rs) \<in> set socks \<and> r \<in> set rs then 1 else 0)"
  by (simp only: count_list_distinct[OF distinct_members] in_members)

lemma count_own:
  assumes "distinct (map fst socks)"
  shows "count_list (filter (\<lambda>y. y = x) (map fst socks)) z =
           (if z = x \<and> x \<in> set (map fst socks) then 1 else 0)"
proof -
  have "distinct (filter (\<lambda>y. y = x) (map fst socks))" using assms by simp
  then show ?thesis by (auto simp add: count_list_distinct)
qed


lemma received_emits: "received (emits acts) y = received acts y"
  by (induction acts rule: emits.induct) simp_all

lemma emits_append: "emits (as @ bs) = emits as @ emits bs"
  by (induction as rule: emits.induct) simp_all

section \<open>The invariant of the runs\<close>

lemma consistent_iff:
  "consistent s \<longleftrightarrow>
     distinct (map fst (users s)) \<and> distinct (map fst (sockets s)) \<and>
     (\<forall>x u. (x, u) \<in> set (users s) \<longrightarrow> (\<exists>rs. (x, rs) \<in> set (sockets s) \<and> room u \<in> set rs))"
  unfolding consistent_def list_all_iff list_ex_iff by (auto; force)

lemma consistent_frame:
  "users s' = users s \<Longrightarrow> sockets s' = sockets s \<Longrightarrow> consistent s \<Longrightarrow> consistent s'"
  by (simp add: consistent_def)

lemma consistent_init: "consistent init_state"
  by (simp add: consistent_def init_state_def)

lemma consistent_connection:
  assumes "consistent s" "\<not> connected s x"
  shows "consistent (fst (connection s x))"
proof -
  have "\<exists>rs. (y, rs) \<in> set (sockets s @ [(x, [Some x])]) \<and> room u \<in> set rs"
    if "(y, u) \<in> set (users s)" for y u
    using assms(1) that unfolding consistent_iff by fastforce
  then show ?thesis
    using assms by (simp add: consistent_iff connection_def connected_def)
qed

lemma leavePrevious_users: "users (fst (leavePrevious s x now)) = users s"
  by (simp add: leavePrevious_def Let_def split: option.splits)

lemma leavePrevious_fst_sockets:
  "map fst (sockets (fst (leavePrevious s x now))) = map fst (sockets s)"
  by (simp add: leavePrevious_def Let_def fst_socket_leave split: option.splits)

lemma leavePrevious_other:
  "(y, rs) \<in> set (sockets s) \<Longrightarrow> y \<noteq> x \<Longrightarrow> (y, rs) \<in> set (sockets (fst (leavePrevious s x now)))"
  by (simp add: leavePrevious_def Let_def socket_leave_other split: option.splits)

lemma consistent_joinRoom:
  assumes "consistent s" "connected s x"
  shows "consistent (fst (joinRoom s x uname rm now found))"
proof -
  define s1 where "s1 = fst (leavePrevious s x now)"
  have u1: "users s1 = users s" and f1: "map fst (sockets s1) = map fst (sockets s)"
    unfolding s1_def by (rule leavePrevious_users, rule leavePrevious_fst_sockets)
  have o1: "(y, rs) \<in> set (sockets s1)" if "(y, rs) \<in> set (sockets s)" "y \<noteq> x" for y rs
    unfolding s1_def using that by (rule leavePrevious_other)
  let ?v = "\<lparr>username = uname, room = rm\<rparr>"
  let ?s2 = "s1\<lparr>users := js_assign x ?v (users s1), sockets := socket_join x rm (sockets s1)\<rparr>"
  have eq: "fst (joinRoom s x uname rm now found) = ?s2"
    by (simp add: joinRoom_def s1_def Let_def split: prod.splits)
  have du: "distinct (map fst (users s))" using assms(1) by (simp add: consistent_iff)
  have d1: "distinct (map fst (users ?s2))"
    using du by (simp add: u1 fst_js_assign)
  have d2: "distinct (map fst (sockets ?s2))"
    using assms(1) by (simp add: consistent_iff f1 fst_socket_join)
  have m: "\<exists>rs. (y, rs) \<in> set (sockets ?s2) \<and> room u \<in> set rs"
    if yu: "(y, u) \<in> set (users ?s2)" for y u
  proof (cases "y = x")
    case True
    from yu True have "u = ?v" using du by (auto simp: u1 set_js_assign)
    moreover have "x \<in> set (map fst (sockets s1))"
      using assms(2) by (simp add: connected_def f1)
    ultimately show ?thesis using socket_join_self[of x "sockets s1" rm] True by auto
  next
    case False
    from yu False have "(y, u) \<in> set (users s)" using du by (auto simp: u1 set_js_assign)
    then obtain rs where "(y, rs) \<in> set (sockets s)" "room u \<in> set rs"
      using assms(1) by (auto simp: consistent_iff)
    then show ?thesis using o1 False socket_join_other[of y rs "sockets s1" x rm] by auto
  qed
  show ?thesis unfolding eq consistent_iff using d1 d2 m by blast
qed

lemma consistent_leaveRoom:
  assumes "consistent s"
  shows "consistent (fst (leaveRoom s x now))"
proof (cases "map_of (users s) x")
  case None
  then show ?thesis using assms by (simp add: leaveRoom_def)
next
  case (Some v)
  let ?s2 = "s\<lparr>sockets := socket_leave x (room v) (sockets s), users := js_delete x (users s)\<rparr>"
  have eq: "fst (leaveRoom s x now) = ?s2" by (simp add: leaveRoom_def Some Let_def)
  have "\<exists>rs. (y, rs) \<in> set (sockets ?s2) \<and> room u \<in> set rs"
    if "(y, u) \<in> set (users ?s2)" for y u
  proof -
    from that have "(y, u) \<in> set (users s)" "y \<noteq> x" by (auto simp: js_delete_def)
    then show ?thesis using assms socket_leave_other[of y _ "sockets s" x "room v"]
      by (fastforce simp: consistent_iff)
  qed
  then show ?thesis
    unfolding eq consistent_iff using assms
    by (simp add: consistent_iff js_delete_def distinct_map_filter fst_socket_leave)
qed

lemma consistent_disconnect:
  assumes "consistent s"
  shows "consistent (fst (disconnect s x now))"
proof -
  let ?s2 = "s\<lparr>sockets := filter (\<lambda>p. fst p \<noteq> x) (sockets s), users := js_delete x (users s)\<rparr>"
  have del: "js_delete x (users s) = users s" if "map_of (users s) x = None"
    using that by (auto simp: js_delete_def map_of_eq_None_iff filter_id_conv)
  have eq: "fst (disconnect s x now) = ?s2"
    by (cases "map_of (users s) x") (simp_all add: disconnect_def Let_def del)
  have "\<exists>rs. (y, rs) \<in> set (sockets ?s2) \<and> room u \<in> set rs"
    if "(y, u) \<in> set (users ?s2)" for y u
  proof -
    from that have "(y, u) \<in> set (users s)" "y \<noteq> x" by (auto simp: js_delete_def)
    then show ?thesis using assms by (fastforce simp: consistent_iff)
  qed
  then show ?thesis
    unfolding eq consistent_iff using assms
    by (simp add: consistent_iff js_delete_def distinct_map_filter)
qed

lemma chatMessage_frame:
  "users (fst (chatMessage s x txt now ok)) = users s"
  "sockets (fst (chatMessage s x txt now ok)) = sockets s"
  by (auto simp: chatMessage_def chatMessage_resume_def Let_def split: option.splits)

lemma privateMessage_frame:
  "users (fst (privateMessage s x t txt now ok)) = users s"
  "sockets (fst (privateMessage s x t txt now ok)) = sockets s"
  by (auto simp: privateMessage_def privateMessage_resume_def Let_def split: option.splits)

lemma typing_state: "fst (typing s x uname rm t) = s"
  by (auto simp: typing_def split: option.splits)

lemma stopTyping_state: "fst (stopTyping s x rm t) = s"
  by (auto simp: stopTyping_def split: option.splits)

lemma consistent_handle:
  assumes "consistent s" "is_connect i \<noteq> connected s (origin i)"
  shows "consistent (fst (handle s i))"
proof (cases i)
  case (Connect x)
  then show ?thesis using assms by (simp add: consistent_connection)
next
  case (JoinRoom x uname rm now found)
  then show ?thesis using assms by (simp add: consistent_joinRoom)
next
  case (ChatMessage x body now ok)
  then show ?thesis using assms(1) consistent_frame[OF chatMessage_frame] by simp
next
  case (PrivateMessage x t body now ok)
  then show ?thesis using assms(1) consistent_frame[OF privateMessage_frame] by simp
next
  case (Typing x uname rm t)
  then show ?thesis using assms(1) by (simp add: typing_state)
next
  case (StopTyping x rm t)
  then show ?thesis using assms(1) by (simp add: stopTyping_state)
next
  case (LeaveRoom x now)
  then show ?thesis using assms(1) by (simp add: consistent_leaveRoom)
next
  case (Disconnect x now)
  then show ?thesis using assms(1) by (simp add: consistent_disconnect)
qed

lemma consistent_step: "consistent s \<Longrightarrow> consistent (fst (step s i))"
  using consistent_handle[of s i] by (auto simp: step_def)

lemma consistent_run: "consistent s \<Longrightarrow> consistent (run s is)"
  by (induction "is" arbitrary: s) (simp_all add: consistent_step)

text \<open>
  Every state a run reaches is consistent: the keys of \<open>users\<close> are distinct, the
  connected sockets are distinct, and every session's socket is connected and in the
  session's room.
\<close>

lemma consistent_reachable: "consistent (run init_state ins)"
  by (rule consistent_run[OF consistent_init])

lemma bound_connected:
  assumes "consistent s" "map_of (users s) y = Some v"
  shows "\<exists>rs. (y, rs) \<in> set (sockets s) \<and> room v \<in> set rs"
  using assms(1) map_of_SomeD[OF assms(2)] unfolding consistent_iff by blast

lemma bound_is_connected:
  assumes "consistent s" "(y, v) \<in> set (users s)"
  shows "connected s y"
proof -
  obtain rs where "(y, rs) \<in> set (sockets s)"
    using assms unfolding consistent_iff by blast
  then show ?thesis unfolding connected_def by force
qed

lemma bound_member_once:
  assumes "consistent s" "map_of (users s) y = Some v"
  shows "count_list (members (sockets s) (room v)) y = 1"
proof -
  have d: "distinct (map fst (sockets s))" using assms(1) by (simp add: consistent_iff)
  have ex: "\<exists>rs. (y, rs) \<in> set (sockets s) \<and> room v \<in> set rs"
    using assms by (rule bound_connected)
  show ?thesis unfolding count_members[OF d] using ex by simp
qed

lemma count_joined:
  assumes "consistent s"
  shows "count_list (members (sockets s) r) y = (if joined s y r then 1 else 0)"
proof -
  have d: "distinct (map fst (sockets s))" using assms by (simp add: consistent_iff)
  have "joined s y r \<longleftrightarrow> (\<exists>rs. (y, rs) \<in> set (sockets s) \<and> r \<in> set rs)"
    unfolding joined_def list_ex_iff by force
  then show ?thesis by (simp add: count_members[OF d])
qed

lemma count_to_socket:
  assumes "consistent s"
  shows "count_list (recipients (sockets s) (To_socket z)) y = (if y = z \<and> connected s z then 1 else 0)"
  using assms count_own[of "sockets s" z y] by (simp add: consistent_iff connected_def)

section \<open>What the handlers do for a bound sender\<close>


lemma chatMessage_bound:
  assumes "map_of (users s) x = Some u"
  shows "snd (chatMessage s x body now ok) =
           Save_group \<lparr>from_user = username u, message = body, date_sent = now,
              in_room = room u\<rparr> ok #
           (if ok then [] else [Console ''Error saving message:'']) @
           [Emit (To_room (room u))
              (Ev_groupMessage \<lparr>from_user = username u, message = body, date_sent = now,
                 in_room = room u\<rparr>) (members (sockets s) (room u))]"
  using assms
  by (cases ok)
     (simp_all add: chatMessage_def chatMessage_begin_def chatMessage_resume_def emit_def)

lemma chatMessage_received:
  assumes "map_of (users s) x = Some u"
  shows "received (snd (chatMessage s x body now ok)) y =
           replicate (count_list (members (sockets s) (room u)) y)
             (Ev_groupMessage \<lparr>from_user = username u, message = body, date_sent = now,
                in_room = room u\<rparr>)"
  using assms
  by (cases ok)
     (simp_all add: chatMessage_def chatMessage_begin_def chatMessage_resume_def emit_def)

text \<open>
  The broadcast of \<open>chatMessage\<close> runs when the save has settled. Whatever consistent state
  the server is in at that moment, every session then bound to the message's room receives
  the message exactly once.
\<close>

lemma chatMessage_resume_fanout:
  assumes "consistent s" "map_of (users s) y = Some v" "room v = in_room m"
  shows "count_list (received (snd (chatMessage_resume s m ok)) y) (Ev_groupMessage m) = 1"
proof -
  have "received (snd (chatMessage_resume s m ok)) y =
        replicate (count_list (members (sockets s) (in_room m)) y) (Ev_groupMessage m)"
    by (cases ok) (simp_all add: chatMessage_resume_def emit_def Let_def)
  then show ?thesis
    using bound_member_once[OF assms(1,2)] assms(3) by (simp add: count_replicate)
qed

lemma privateMessage_bound:
  assumes "map_of (users s) x = Some u"
  shows "snd (privateMessage s x t body now ok) =
           Save_private \<lparr>from_user = username u, message = body, date_sent = now,
              to_user = t\<rparr> ok #
           (if ok then [] else [Console ''Error saving private message:'']) @
           (case recipientSocket s t of
              None \<Rightarrow> []
            | Some p \<Rightarrow>
                [Emit (To_sid (fst p))
                   (Ev_privateMessage \<lparr>from_user = username u, message = body, date_sent = now,
                      to_user = t\<rparr>) (recipients (sockets s) (To_sid (fst p)))]) @
           [Emit (To_socket x)
              (Ev_privateMessage \<lparr>from_user = username u, message = body, date_sent = now,
                 to_user = t\<rparr>) (recipients (sockets s) (To_socket x))]"
  using assms
  by (cases ok; cases "recipientSocket s t")
     (simp_all add: privateMessage_def privateMessage_begin_def privateMessage_resume_def
        emit_def Let_def recipientSocket_archive)

lemma privateMessage_actions:
  assumes "map_of (users s) x = Some u"
  shows "emits (snd (privateMessage s x t body now ok)) =
           (case recipientSocket s t of
              None \<Rightarrow> []
            | Some p \<Rightarrow>
                [Emit (To_sid (fst p))
                   (Ev_privateMessage \<lparr>from_user = username u, message = body, date_sent = now,
                      to_user = t\<rparr>) (recipients (sockets s) (To_sid (fst p)))]) @
           [Emit (To_socket x)
              (Ev_privateMessage \<lparr>from_user = username u, message = body, date_sent = now,
                 to_user = t\<rparr>) (recipients (sockets s) (To_socket x))]"
  using assms
  by (cases ok; cases "recipientSocket s t")
     (simp_all add: privateMessage_def privateMessage_begin_def privateMessage_resume_def
        emit_def recipientSocket_def)

text \<open>
  Who receives a direct message: every connection in the room named after the connection
  id of the first session with the recipient's identity, and the sender's connection.
\<close>

lemma privateMessage_count:
  assumes "consistent s" "map_of (users s) x = Some u"
  shows "count_list (received (snd (privateMessage s x t body now ok)) y)
           (Ev_privateMessage \<lparr>from_user = username u, message = body, date_sent = now,
              to_user = t\<rparr>) =
         (case recipientSocket s t of
            None \<Rightarrow> 0
          | Some p \<Rightarrow> if joined s y (Some (fst p)) then 1 else 0) +
         (if y = x then 1 else 0)"
proof -
  have cx: "connected s x"
    using bound_is_connected[OF assms(1) map_of_SomeD[OF assms(2)]] .
  have "received (snd (privateMessage s x t body now ok)) y =
        received (emits (snd (privateMessage s x t body now ok))) y"
    by (simp add: received_emits)
  then show ?thesis
    unfolding privateMessage_actions[OF assms(2)]
    using cx
    by (cases "recipientSocket s t")
       (simp_all add: count_joined[OF assms(1)] count_to_socket[OF assms(1)] count_replicate
          del: recipients.simps(4))
qed

section \<open>The two concrete runs\<close>

lemmas run_defs = init_state_def step_def connected_def connection_def joinRoom_def
  leavePrevious_def emit_def members_def socket_join_def socket_leave_def getRoomUsers_def
  truthy_def interp_def notice_def recentFor_def Let_def

lemma run_two_joined:
  "run init_state two_joined =
     \<lparr>users = [(''c1'', alice), (''c2'', bob)],
      sockets = [(''c1'', [Some ''sports'', Some ''c1'']), (''c2'', [Some ''sports'', Some ''c2''])],
      groupMessages = [], privateMessages = []\<rparr>"
  by (simp add: two_joined_def alice_def bob_def run_defs)

lemma run_one_joined:
  "run init_state one_joined =
     \<lparr>users = [(''c1'', alice)],
      sockets = [(''c1'', [Some ''sports'', Some ''c1'']), (''c2'', [Some ''c2''])],
      groupMessages = [], privateMessages = []\<rparr>"
  by (simp add: one_joined_def alice_def run_defs)

lemma run_id_room_left:
  "run init_state id_room_left =
     \<lparr>users = [(''c1'', alice), (''c2'', bob)],
      sockets = [(''c1'', [Some ''sports'', Some ''c1'']), (''c2'', [Some ''sports''])],
      groupMessages = [], privateMessages = []\<rparr>"
  by (simp add: id_room_left_def alice_def bob_def run_defs)


section \<open>Departure rosters\<close>

text \<open>
  Claim C1: after an explicit leave or a disconnect, the roster emitted to the former room
  no longer contains the departing session's identity. The handlers compute the roster
  before \<open>delete users[socket.id]\<close>, so it still lists the departing session: with alice
  (\<open>c1\<close>) and bob (\<open>c2\<close>) in sports, when \<open>c2\<close> leaves or disconnects, \<open>c1\<close> is told that
  bob has left and is sent the roster alice, bob.
\<close>

theorem departure_roster_lists_departed:
  "snd (leaveRoom (run init_state two_joined) ''c2'' 3) =
     [Emit (To_room (Some ''sports''))
        (Ev_message (notice ''bob has left the chat'' 3)) [''c1''],
      Emit (To_room (Some ''sports'')) (Ev_roomUsers [alice, bob]) [''c1'']] \<and>
   snd (disconnect (run init_state two_joined) ''c2'' 3) =
     [Emit (To_room (Some ''sports''))
        (Ev_message (notice ''bob has left the chat'' 3)) [''c1''],
      Emit (To_room (Some ''sports'')) (Ev_roomUsers [alice, bob]) [''c1''],
      Console ''User disconnected: c2'']"
  unfolding run_two_joined
  by (simp add: leaveRoom_def disconnect_def emit_def members_def socket_leave_def
      getRoomUsers_def interp_def alice_def bob_def Let_def)

section \<open>Switching rooms\<close>




section \<open>Group messages\<close>

text \<open>
  Claim C3: in every state a run reaches, a group message from a connection \<open>x\<close> whose
  session is bound to identity \<open>username u\<close> and room \<open>room u\<close> is stamped with that sender
  and room and received exactly once by every connection whose session is bound to that
  room, the sender's among them. (The handler as run with no other event handled while the
  save is awaited.)
\<close>

theorem group_message_fanout:
  assumes "s = run init_state ins" and "map_of (users s) x = Some u"
  shows "(\<forall>y v. map_of (users s) y = Some v \<and> room v = room u \<longrightarrow>
            count_list (received (snd (chatMessage s x body now ok)) y)
              (Ev_groupMessage \<lparr>from_user = username u, message = body, date_sent = now,
                 in_room = room u\<rparr>) = 1) \<and>
         count_list (received (snd (chatMessage s x body now ok)) x)
           (Ev_groupMessage \<lparr>from_user = username u, message = body, date_sent = now,
              in_room = room u\<rparr>) = 1"
proof -
  have c: "consistent s" using assms(1) by (simp add: consistent_reachable)
  have one: "count_list (members (sockets s) (room u)) y = 1"
    if "map_of (users s) y = Some v" "room v = room u" for y v
    using bound_member_once[OF c that(1)] that(2) by simp
  show ?thesis
  proof (intro conjI allI impI)
    fix y v assume "map_of (users s) y = Some v \<and> room v = room u"
    then have "count_list (members (sockets s) (room u)) y = 1" using one by blast
    then show "count_list (received (snd (chatMessage s x body now ok)) y)
              (Ev_groupMessage \<lparr>from_user = username u, message = body, date_sent = now,
                 in_room = room u\<rparr>) = 1"
      by (simp add: chatMessage_received[OF assms(2)] count_replicate)
  next
    have "count_list (members (sockets s) (room u)) x = 1" using one[OF assms(2)] by simp
    then show "count_list (received (snd (chatMessage s x body now ok)) x)
              (Ev_groupMessage \<lparr>from_user = username u, message = body, date_sent = now,
                 in_room = room u\<rparr>) = 1"
      by (simp add: chatMessage_received[OF assms(2)] count_replicate)
  qed
qed

theorem group_message_fanout_witness:
  "map_of (users (run init_state two_joined)) ''c1'' = Some alice \<and>
   count_list (received (snd (chatMessage (run init_state two_joined) ''c1'' ''hi'' 3 True)) ''c2'')
     (Ev_groupMessage \<lparr>from_user = Some ''alice'', message = ''hi'', date_sent = 3,
        in_room = Some ''sports''\<rparr>) = 1 \<and>
   count_list (received (snd (chatMessage (run init_state two_joined) ''c1'' ''hi'' 3 True)) ''c1'')
     (Ev_groupMessage \<lparr>from_user = Some ''alice'', message = ''hi'', date_sent = 3,
        in_room = Some ''sports''\<rparr>) = 1"
proof -
  have h: "map_of (users (run init_state two_joined)) ''c1'' = Some alice"
    unfolding run_two_joined by simp
  have b: "map_of (users (run init_state two_joined)) ''c2'' = Some bob \<and> room bob = room alice"
    unfolding run_two_joined by (simp add: alice_def bob_def)
  note t = group_message_fanout[OF refl h, of "''hi''" 3 True]
  have "count_list
          (received (snd (chatMessage (run init_state two_joined) ''c1'' ''hi'' 3 True)) ''c2'')
          (Ev_groupMessage \<lparr>from_user = username alice, message = ''hi'', date_sent = 3,
             in_room = room alice\<rparr>) = 1"
    using conjunct1[OF t] b by blast
  then show ?thesis
    using h conjunct2[OF t] by (simp add: alice_def)
qed

section \<open>Direct messages\<close>

text \<open>
  In every state a run reaches, the direct message of a bound sender is received once by
  each connection in the room named after the found session's connection id, and once
  more by the sender.
\<close>

lemma direct_message_counts:
  assumes "map_of (users (run init_state ins)) x = Some u"
  shows "count_list (received (snd (privateMessage (run init_state ins) x t body now ok)) y)
           (Ev_privateMessage \<lparr>from_user = username u, message = body, date_sent = now,
              to_user = t\<rparr>) =
         (case recipientSocket (run init_state ins) t of
            None \<Rightarrow> 0
          | Some p \<Rightarrow> if joined (run init_state ins) y (Some (fst p)) then 1 else 0) +
         (if y = x then 1 else 0)"
  using privateMessage_count[OF consistent_reachable assms] .

text \<open>
  Claim C4: a direct message from a bound sender A to identity B is delivered to a
  connection of B if and only if some session is bound to B, and A's connection always
  receives the echo. The handler finds the recipient's session and sends to the room named
  after its connection id (``Send to recipient'', lines 233-236); that room is empty once
  \<open>joinRoom\<close> has run \<open>socket.leave(prevRoom)\<close> on it (line 144). Bob joins a room named
  after his own connection id, \<open>c2\<close>, and then sports; alice's direct message to bob, who
  has a session, reaches no connection but her own.
\<close>

theorem direct_message_lost_after_id_room_left:
  "online (run init_state id_room_left) (Some ''bob'') \<and>
   map_of (users (run init_state id_room_left)) ''c1'' = Some alice \<and>
   snd (privateMessage (run init_state id_room_left) ''c1'' (Some ''bob'') ''hi'' 4 True) =
     [Save_private \<lparr>from_user = Some ''alice'', message = ''hi'', date_sent = 4,
        to_user = Some ''bob''\<rparr> True,
      Emit (To_sid ''c2'')
        (Ev_privateMessage \<lparr>from_user = Some ''alice'', message = ''hi'', date_sent = 4,
           to_user = Some ''bob''\<rparr>) [],
      Emit (To_socket ''c1'')
        (Ev_privateMessage \<lparr>from_user = Some ''alice'', message = ''hi'', date_sent = 4,
           to_user = Some ''bob''\<rparr>) [''c1'']] \<and>
   received (snd (privateMessage (run init_state id_room_left) ''c1'' (Some ''bob'') ''hi'' 4 True))
     ''c2'' = []"
  unfolding run_id_room_left
  by (simp add: online_def privateMessage_def privateMessage_begin_def privateMessage_resume_def
      recipientSocket_def emit_def members_def alice_def bob_def Let_def)

section \<open>Events from a connection without a session\<close>

text \<open>
  Claim C5 as stated (every group message, direct message, typing, stop-typing and leave
  event from a connection without a session is dropped, with no outbound event) fails for
  typing and stop-typing: their handlers never read the sender's session. Connection \<open>c2\<close>
  has connected but not joined; its typing and stop-typing signals for room sports are
  relayed to \<open>c1\<close>.
\<close>

theorem unbound_typing_is_relayed:
  "map_of (users (run init_state one_joined)) ''c2'' = None \<and>
   snd (typing (run init_state one_joined) ''c2'' (Some ''bob'') (Some ''sports'') None) =
     [Emit (Broadcast_to ''c2'' (Some ''sports'')) (Ev_typing (Some ''bob'')) [''c1'']] \<and>
   snd (stopTyping (run init_state one_joined) ''c2'' (Some ''sports'') None) =
     [Emit (Broadcast_to ''c2'' (Some ''sports'')) Ev_stopTyping [''c1'']]"
  unfolding run_one_joined
  by (simp add: typing_def stopTyping_def truthy_def emit_def members_def)

text \<open>
  Claim C5, amended: a group message, a direct message or a leave event from a connection
  that has no session in the registry is dropped: the state is unchanged and the handler
  does nothing (no emit, no archive append, no log line).
\<close>

theorem unbound_sender_dropped:
  assumes "map_of (users s) x = None"
  shows "chatMessage s x body now ok = (s, []) \<and>
         privateMessage s x t body now ok = (s, []) \<and>
         leaveRoom s x now = (s, [])"
  using assms
  by (simp add: chatMessage_def chatMessage_begin_def privateMessage_def privateMessage_begin_def
      leaveRoom_def)

theorem unbound_sender_dropped_witness:
  "map_of (users (run init_state one_joined)) ''c2'' = None \<and>
   chatMessage (run init_state one_joined) ''c2'' ''hi'' 3 True = (run init_state one_joined, []) \<and>
   privateMessage (run init_state one_joined) ''c2'' (Some ''alice'') ''hi'' 3 True =
     (run init_state one_joined, []) \<and>
   leaveRoom (run init_state one_joined) ''c2'' 3 = (run init_state one_joined, [])"
proof -
  have h: "map_of (users (run init_state one_joined)) ''c2'' = None"
    unfolding run_one_joined by simp
  show ?thesis
    using h unbound_sender_dropped[OF h, of "''hi''" 3 True "Some ''alice''"] by simp
qed

section \<open>Explicit leave\<close>

text \<open>
  Claim C6 as stated (an explicit leave clears only the room field and keeps the session
  record and its identity) fails: \<open>leaveRoom\<close> ends with \<open>delete users[socket.id]\<close>. After
  bob's connection \<open>c2\<close> leaves, the registry has no session for \<open>c2\<close>.
\<close>

theorem leave_removes_session_example:
  "map_of (users (run init_state two_joined)) ''c2'' = Some bob \<and>
   map_of (users (fst (leaveRoom (run init_state two_joined) ''c2'' 3))) ''c2'' = None"
  unfolding run_two_joined
  by (simp add: leaveRoom_def js_delete_def Let_def)

text \<open>
  Claim C6, amended: an explicit leave by a connection with a session removes that
  session record (identity and room) from the registry, as a disconnect does; the session
  of every other connection and the archive are unchanged.
\<close>

theorem leave_removes_session:
  assumes "map_of (users s) x = Some u"
  shows "map_of (users (fst (leaveRoom s x now))) x = None \<and>
         (\<forall>y. y \<noteq> x \<longrightarrow> map_of (users (fst (leaveRoom s x now))) y = map_of (users s) y) \<and>
         groupMessages (fst (leaveRoom s x now)) = groupMessages s \<and>
         privateMessages (fst (leaveRoom s x now)) = privateMessages s"
  using assms by (simp add: leaveRoom_def map_of_js_delete Let_def)

theorem leave_removes_session_witness:
  "map_of (users (run init_state two_joined)) ''c2'' = Some bob \<and>
   map_of (users (fst (leaveRoom (run init_state two_joined) ''c2'' 3))) ''c2'' = None \<and>
   map_of (users (fst (leaveRoom (run init_state two_joined) ''c2'' 3))) ''c1'' = Some alice"
proof -
  have h: "map_of (users (run init_state two_joined)) ''c2'' = Some bob"
    unfolding run_two_joined by simp
  have a: "map_of (users (run init_state two_joined)) ''c1'' = Some alice"
    unfolding run_two_joined by simp
  show ?thesis
    using h a leave_removes_session[OF h, of 3] by simp
qed

section \<open>Archive and fan-out\<close>

text \<open>
  Claim C7 as stated (the fan-out is emitted before the archive append completes) fails:
  the handlers \<open>await\<close> the save and emit afterwards. When alice sends ``hi'', the append
  has settled before the broadcast to sports, and nothing is emitted before it.
\<close>

theorem broadcast_follows_save_example:
  "snd (chatMessage (run init_state two_joined) ''c1'' ''hi'' 3 True) =
     [Save_group \<lparr>from_user = Some ''alice'', message = ''hi'', date_sent = 3,
        in_room = Some ''sports''\<rparr> True,
      Emit (To_room (Some ''sports''))
        (Ev_groupMessage \<lparr>from_user = Some ''alice'', message = ''hi'', date_sent = 3,
           in_room = Some ''sports''\<rparr>) [''c1'', ''c2'']] \<and>
   emits (before_save (snd (chatMessage (run init_state two_joined) ''c1'' ''hi'' 3 True))) = []"
  unfolding run_two_joined
  by (simp add: chatMessage_def chatMessage_begin_def chatMessage_resume_def emit_def
      members_def before_save_def alice_def bob_def Let_def)

text \<open>
  Claim C7, amended: for every group or direct message from a bound sender, the handler
  does nothing before the archive append has settled (with success or failure), and the
  fan-out is emitted after it.
\<close>

theorem fanout_follows_save:
  assumes "map_of (users s) x = Some u"
  shows "before_save (snd (chatMessage s x body now ok)) = [] \<and>
         emits (after_save (snd (chatMessage s x body now ok))) \<noteq> [] \<and>
         before_save (snd (privateMessage s x t body now ok)) = [] \<and>
         emits (after_save (snd (privateMessage s x t body now ok))) \<noteq> []"
  unfolding chatMessage_bound[OF assms] privateMessage_bound[OF assms]
  by (simp add: before_save_def after_save_def emits_append)

theorem fanout_follows_save_witness:
  "map_of (users (run init_state two_joined)) ''c1'' = Some alice \<and>
   before_save (snd (chatMessage (run init_state two_joined) ''c1'' ''hi'' 3 False)) = [] \<and>
   emits (after_save (snd (chatMessage (run init_state two_joined) ''c1'' ''hi'' 3 False))) \<noteq> [] \<and>
   before_save (snd (privateMessage (run init_state two_joined) ''c1'' (Some ''bob'') ''hi'' 3 False)) = [] \<and>
   emits (after_save (snd (privateMessage (run init_state two_joined) ''c1'' (Some ''bob'') ''hi'' 3 False)))
     \<noteq> []"
proof -
  have h: "map_of (users (run init_state two_joined)) ''c1'' = Some alice"
    unfolding run_two_joined by simp
  show ?thesis
    using h fanout_follows_save[OF h, of "''hi''" 3 False "Some ''bob''"] by simp
qed

text \<open>
  Claim C8: for a group or direct message from a bound sender, the emits when the archive
  append fails are those of a successful append, to the same connections: the group
  message to the sender's room; the direct message to the recipient, when one is found,
  and to the sender. Nothing else (no error event) is emitted.
\<close>

theorem archive_failure_same_delivery:
  assumes "map_of (users s) x = Some u"
  shows "emits (snd (chatMessage s x body now False)) = emits (snd (chatMessage s x body now True)) \<and>
         emits (snd (chatMessage s x body now False)) =
           [Emit (To_room (room u))
              (Ev_groupMessage \<lparr>from_user = username u, message = body, date_sent = now,
                 in_room = room u\<rparr>) (members (sockets s) (room u))] \<and>
         emits (snd (privateMessage s x t body now False)) =
           emits (snd (privateMessage s x t body now True)) \<and>
         emits (snd (privateMessage s x t body now False)) =
           (case recipientSocket s t of
              None \<Rightarrow> []
            | Some p \<Rightarrow>
                [Emit (To_sid (fst p))
                   (Ev_privateMessage \<lparr>from_user = username u, message = body, date_sent = now,
                      to_user = t\<rparr>) (recipients (sockets s) (To_sid (fst p)))]) @
           [Emit (To_socket x)
              (Ev_privateMessage \<lparr>from_user = username u, message = body, date_sent = now,
                 to_user = t\<rparr>) (recipients (sockets s) (To_socket x))]"
  unfolding chatMessage_bound[OF assms] privateMessage_actions[OF assms]
  by simp

theorem archive_failure_same_delivery_witness:
  "map_of (users (run init_state two_joined)) ''c1'' = Some alice \<and>
   emits (snd (chatMessage (run init_state two_joined) ''c1'' ''hi'' 3 False)) =
     emits (snd (chatMessage (run init_state two_joined) ''c1'' ''hi'' 3 True)) \<and>
   emits (snd (chatMessage (run init_state two_joined) ''c1'' ''hi'' 3 False)) =
     [Emit (To_room (Some ''sports''))
        (Ev_groupMessage \<lparr>from_user = Some ''alice'', message = ''hi'', date_sent = 3,
           in_room = Some ''sports''\<rparr>) [''c1'', ''c2'']]"
proof -
  have h: "map_of (users (run init_state two_joined)) ''c1'' = Some alice"
    unfolding run_two_joined by simp
  have m: "members (sockets (run init_state two_joined)) (Some ''sports'') = [''c1'', ''c2'']"
    unfolding run_two_joined by (simp add: members_def)
  note t = archive_failure_same_delivery[OF h, of "''hi''" 3 "Some ''bob''"]
  show ?thesis
  proof (intro conjI)
    show "map_of (users (run init_state two_joined)) ''c1'' = Some alice" by (rule h)
    show "emits (snd (chatMessage (run init_state two_joined) ''c1'' ''hi'' 3 False)) =
          emits (snd (chatMessage (run init_state two_joined) ''c1'' ''hi'' 3 True))"
      using t by (rule conjunct1)
    show "emits (snd (chatMessage (run init_state two_joined) ''c1'' ''hi'' 3 False)) =
          [Emit (To_room (Some ''sports''))
             (Ev_groupMessage \<lparr>from_user = Some ''alice'', message = ''hi'', date_sent = 3,
                in_room = Some ''sports''\<rparr>) [''c1'', ''c2'']]"
      using conjunct1[OF conjunct2[OF t]] m by (simp add: alice_def)
  qed
qed

section \<open>Typing signals\<close>

text \<open>
  Claim C9: a typing or stop-typing event leaves the whole state as it was (registry and
  archive), appends nothing to the archive, and so a later history fetch returns what it
  would have returned before.
\<close>

theorem typing_leaves_state:
  "fst (typing s x uname rm t) = s \<and> fst (stopTyping s x rm t) = s \<and>
   filter is_save (snd (typing s x uname rm t)) = [] \<and>
   filter is_save (snd (stopTyping s x rm t)) = [] \<and>
   recentFor (groupMessages (fst (typing s x uname rm t))) r lim =
     recentFor (groupMessages s) r lim \<and>
   recentFor (groupMessages (fst (stopTyping s x rm t))) r lim =
     recentFor (groupMessages s) r lim"
  by (simp add: typing_def stopTyping_def emit_def split: option.splits)

section \<open>A direct message to oneself\<close>

text \<open>
  In every state a run reaches, such a sender receives the message twice while its
  connection is in the room of its own id, and once otherwise.
\<close>

lemma self_direct_message_counts:
  assumes "map_of (users (run init_state ins)) x = Some u"
    and "recipientSocket (run init_state ins) (username u) = Some (x, u)"
  shows "count_list
           (received (snd (privateMessage (run init_state ins) x (username u) body now ok)) x)
           (Ev_privateMessage \<lparr>from_user = username u, message = body, date_sent = now,
              to_user = username u\<rparr>) =
         (if joined (run init_state ins) x (Some x) then 2 else 1)"
  unfolding direct_message_counts[OF assms(1)] using assms(2) by simp

text \<open>
  Claim C10: a bound sender whose direct message names its own identity, and whose session
  is the first registry match for it, receives the message twice on its connection. After
  bob has joined a room named after his own connection id, \<open>c2\<close>, and then sports, \<open>c2\<close> is
  no longer in the room of its id: bob's message to himself finds his own session, the
  send to the room \<open>c2\<close> reaches nobody, and \<open>c2\<close> receives the echo alone, once.
\<close>

theorem self_direct_message_once_after_id_room_left:
  "map_of (users (run init_state id_room_left)) ''c2'' = Some bob \<and>
   recipientSocket (run init_state id_room_left) (Some ''bob'') = Some (''c2'', bob) \<and>
   snd (privateMessage (run init_state id_room_left) ''c2'' (Some ''bob'') ''hi'' 4 True) =
     [Save_private \<lparr>from_user = Some ''bob'', message = ''hi'', date_sent = 4,
        to_user = Some ''bob''\<rparr> True,
      Emit (To_sid ''c2'')
        (Ev_privateMessage \<lparr>from_user = Some ''bob'', message = ''hi'', date_sent = 4,
           to_user = Some ''bob''\<rparr>) [],
      Emit (To_socket ''c2'')
        (Ev_privateMessage \<lparr>from_user = Some ''bob'', message = ''hi'', date_sent = 4,
           to_user = Some ''bob''\<rparr>) [''c2'']] \<and>
   count_list
     (received (snd (privateMessage (run init_state id_room_left) ''c2'' (Some ''bob'') ''hi'' 4 True))
        ''c2'')
     (Ev_privateMessage \<lparr>from_user = Some ''bob'', message = ''hi'', date_sent = 4,
        to_user = Some ''bob''\<rparr>) = 1"
  unfolding run_id_room_left
  by (simp add: privateMessage_def privateMessage_begin_def privateMessage_resume_def
      recipientSocket_def emit_def members_def alice_def bob_def Let_def)

end
